theory Spec2Isabelle
  imports Main "HOL-Library.Sublist" "HOL-Library.Char_ord" "HOL-Library.List_Lexorder"
begin

section \<open>JavaScript strings and the regular-expression steps used by the code\<close>

text \<open>
  A JavaScript string is a sequence of UTF-16 code units. The model uses \<^typ>\<open>string\<close>,
  a list of \<^typ>\<open>char\<close>, and reads each \<^typ>\<open>char\<close> as one code unit in the range
  0..255 (Basic Latin and Latin-1 Supplement). On that range \<open>String.prototype.toLowerCase\<close>
  adds 32 to \<open>A\<close>..\<open>Z\<close> and to U+00C0..U+00DE except U+00D7, and leaves every other
  code unit alone; the class \<open>\s\<close> holds U+0009..U+000D, U+0020 and U+00A0.
\<close>

definition toLowerChar :: "char \<Rightarrow> char" where
  "toLowerChar c =
     (let n = (of_char c :: nat)
      in if (65 \<le> n \<and> n \<le> 90) \<or> (192 \<le> n \<and> n \<le> 222 \<and> n \<noteq> 215)
         then char_of (n + 32) else c)"

definition toLowerCase :: "string \<Rightarrow> string" where
  "toLowerCase s = map toLowerChar s"

text \<open>The character classes \<open>[a-z]\<close>, \<open>[0-9]\<close>, \<open>[a-z0-9]\<close> and \<open>\s\<close>.\<close>

definition isLower :: "char \<Rightarrow> bool" where
  "isLower c = (97 \<le> (of_char c :: nat) \<and> (of_char c :: nat) \<le> 122)"

definition isDigit :: "char \<Rightarrow> bool" where
  "isDigit c = (48 \<le> (of_char c :: nat) \<and> (of_char c :: nat) \<le> 57)"

definition isAlnum :: "char \<Rightarrow> bool" where
  "isAlnum c = (isLower c \<or> isDigit c)"

definition isSpace :: "char \<Rightarrow> bool" where
  "isSpace c =
     (let n = (of_char c :: nat) in (9 \<le> n \<and> n \<le> 13) \<or> n = 32 \<or> n = 160)"

definition isHyphen :: "char \<Rightarrow> bool" where
  "isHyphen c = (c = CHR ''-'')"

text \<open>
  \<open>s.replace(/[^...]/g, '')\<close> with a negated class deletes every character outside the
  class: it keeps the characters of the class.
\<close>

definition keepOnly :: "(char \<Rightarrow> bool) \<Rightarrow> string \<Rightarrow> string" where
  "keepOnly cls s = filter cls s"

text \<open>
  \<open>s.replace(/X+/g, r)\<close> for a character class \<open>X\<close>: scanning from the left, every
  maximal run of characters of the class is replaced by \<open>r\<close>, and the scan goes on
  after the run.
\<close>

function replaceRuns :: "(char \<Rightarrow> bool) \<Rightarrow> string \<Rightarrow> string \<Rightarrow> string" where
  "replaceRuns cls r [] = []"
| "replaceRuns cls r (c # cs) =
     (if cls c then r @ replaceRuns cls r (dropWhile cls cs)
      else c # replaceRuns cls r cs)"
  by pat_completeness auto
termination
  by (relation "measure (\<lambda>(cls, r, s). length s)")
     (auto simp: length_dropWhile_le less_Suc_eq_le)

text \<open>
  \<open>s.replace(/^-|-$/g, '')\<close>: one hyphen at the very start is deleted, and then one
  hyphen at the very end of what follows the first match. No \<open>m\<close> flag is set, so
  \<open>^\<close> and \<open>$\<close> are the ends of the whole string.
\<close>

definition stripEdgeHyphens :: "string \<Rightarrow> string" where
  "stripEdgeHyphens s =
     (let s1 = (case s of [] \<Rightarrow> [] | c # cs \<Rightarrow> if c = CHR ''-'' then cs else c # cs)
      in if s1 \<noteq> [] \<and> last s1 = CHR ''-'' then butlast s1 else s1)"

section \<open>utils/fileUtils.js\<close>

text \<open>\<open>sanitizeVenueName\<close>: the five steps of the source, in its order.\<close>

definition sanitizeVenueName :: "string \<Rightarrow> string" where
  "sanitizeVenueName venueName =
     stripEdgeHyphens
       (replaceRuns isHyphen ''-''
         (replaceRuns isSpace ''-''
           (keepOnly (\<lambda>c. isAlnum c \<or> isSpace c \<or> isHyphen c)
             (toLowerCase venueName))))"

text \<open>
  The category expression \<open>category.toLowerCase().replace(/[^a-z0-9]/g, '')\<close>, which
  the source writes out in \<open>generateFileName\<close> and again in \<open>generateFolderPath\<close>.
\<close>

definition sanitizeCategory :: "string \<Rightarrow> string" where
  "sanitizeCategory category = keepOnly isAlnum (toLowerCase category)"

subsection \<open>The library calls of \<open>generateFileName\<close>\<close>

text \<open>
  \<open>path.extname\<close> of Node (POSIX flavour): one scan from the last character to the
  first, stopping at the \<open>/\<close> that ends the last path segment. \<open>extname_scan path n st\<close>
  runs the loop body for \<open>i = n - 1\<close> down to \<open>0\<close>.
\<close>

record extname_state =
  startDot :: int
  startPart :: int
  endPos :: int
  matchedSlash :: bool
  preDotState :: int

fun extname_scan :: "string \<Rightarrow> nat \<Rightarrow> extname_state \<Rightarrow> extname_state" where
  "extname_scan path 0 st = st"
| "extname_scan path (Suc i) st =
     (let code = path ! i
      in if code = CHR ''/''
         then (if \<not> matchedSlash st then st\<lparr>startPart := int i + 1\<rparr>
               else extname_scan path i st)
         else
           let st1 = (if endPos st = - 1
                      then st\<lparr>matchedSlash := False, endPos := int i + 1\<rparr> else st);
               st2 = (if code = CHR ''.''
                      then (if startDot st1 = - 1 then st1\<lparr>startDot := int i\<rparr>
                            else if preDotState st1 \<noteq> 1 then st1\<lparr>preDotState := 1\<rparr>
                            else st1)
                      else if startDot st1 \<noteq> - 1 then st1\<lparr>preDotState := - 1\<rparr>
                      else st1)
           in extname_scan path i st2)"

definition extname :: "string \<Rightarrow> string" where
  "extname path =
     (let st = extname_scan path (length path)
                 \<lparr>startDot = - 1, startPart = 0, endPos = - 1,
                  matchedSlash = True, preDotState = 0\<rparr>
      in if startDot st = - 1 \<or> endPos st = - 1 \<or> preDotState st = 0 \<or>
            (preDotState st = 1 \<and> startDot st = endPos st - 1 \<and>
             startDot st = startPart st + 1)
         then []
         else take (nat (endPos st - startDot st)) (drop (nat (startDot st)) path))"

text \<open>
  \<open>new Date()\<close> is the current instant; the model receives it as the UTC fields that
  \<open>Date.prototype.toISOString\<close> prints. The year is printed with four digits when it
  is in 0..9999 and with a sign and six digits otherwise; every other field has a
  fixed width. \<open>pad2\<close>, \<open>pad3\<close>, \<open>pad4\<close> and \<open>pad6\<close> print the last 2, 3, 4 and
  6 decimal digits of a number, which are the whole number for the fields of a date
  (month 1..12, day 1..31, hours 0..23, minutes and seconds 0..59, milliseconds 0..999,
  a year of at most six digits).
\<close>

record date_utc =
  year :: int
  month :: nat
  day :: nat
  hours :: nat
  minutes :: nat
  seconds :: nat
  millis :: nat

definition digit :: "nat \<Rightarrow> char" where
  "digit n = ''0123456789'' ! (n mod 10)"

definition pad2 :: "nat \<Rightarrow> string" where
  "pad2 n = [digit (n div 10), digit n]"

definition pad3 :: "nat \<Rightarrow> string" where
  "pad3 n = [digit (n div 100), digit (n div 10), digit n]"

definition pad4 :: "nat \<Rightarrow> string" where
  "pad4 n = [digit (n div 1000), digit (n div 100), digit (n div 10), digit n]"

definition pad6 :: "nat \<Rightarrow> string" where
  "pad6 n = [digit (n div 100000), digit (n div 10000), digit (n div 1000),
             digit (n div 100), digit (n div 10), digit n]"

definition isoYear :: "int \<Rightarrow> string" where
  "isoYear y =
     (if 0 \<le> y \<and> y \<le> 9999 then pad4 (nat y)
      else (if y < 0 then ''-'' else ''+'') @ pad6 (nat \<bar>y\<bar>))"

definition toISOString :: "date_utc \<Rightarrow> string" where
  "toISOString d =
     isoYear (year d) @ ''-'' @ pad2 (month d) @ ''-'' @ pad2 (day d) @ ''T'' @
     pad2 (hours d) @ '':'' @ pad2 (minutes d) @ '':'' @ pad2 (seconds d) @ ''.'' @
     pad3 (millis d) @ ''Z''"

text \<open>\<open>.replace(/[:.]/g, '-').slice(0, 19)\<close> on the ISO string.\<close>

definition timestampOf :: "string \<Rightarrow> string" where
  "timestampOf isoString =
     take 19 (map (\<lambda>c. if c = CHR '':'' \<or> c = CHR ''.'' then CHR ''-'' else c) isoString)"

subsection \<open>\<open>generateFileName\<close>, \<open>generateFolderPath\<close>\<close>

text \<open>
  The clock reading \<open>now\<close> (\<open>new Date()\<close>) and the identifier \<open>uuid\<close>
  (\<open>uuidv4()\<close>) are drawn inside the source function; the model takes them as
  arguments. A missing \<open>category\<close> argument is the default \<open>''\<close>, and the test
  \<open>if (category)\<close> on a string is the test for the non-empty string.
\<close>

definition generateFileName ::
  "string \<Rightarrow> string \<Rightarrow> string \<Rightarrow> date_utc \<Rightarrow> string \<Rightarrow> string" where
  "generateFileName venueName originalName category now uuid =
     (let sanitizedVenue = sanitizeVenueName venueName;
          timestamp = timestampOf (toISOString now);
          extension = toLowerCase (extname originalName);
          uniqueId = take 8 uuid;
          fileName =
            (if category \<noteq> []
             then sanitizedVenue @ ''_'' @ sanitizeCategory category @ ''_'' @ timestamp @
                  ''_'' @ uniqueId
             else sanitizedVenue @ ''_'' @ timestamp @ ''_'' @ uniqueId)
      in fileName @ extension)"

definition generateFolderPath :: "string \<Rightarrow> string \<Rightarrow> string" where
  "generateFolderPath venueName category =
     (let sanitizedVenue = sanitizeVenueName venueName
      in if category \<noteq> [] then sanitizedVenue @ ''/'' @ sanitizeCategory category
         else sanitizedVenue)"

subsection \<open>Validation and classification\<close>

definition validateFileType :: "string \<Rightarrow> string list \<Rightarrow> bool" where
  "validateFileType mimeType allowedTypes = (mimeType \<in> set allowedTypes)"

definition validateFileSize :: "nat \<Rightarrow> nat \<Rightarrow> bool" where
  "validateFileSize fileSize maxSize = (fileSize \<le> maxSize)"

text \<open>\<open>String.prototype.startsWith\<close> and \<open>String.prototype.includes\<close>.\<close>

definition startsWith :: "string \<Rightarrow> string \<Rightarrow> bool" where
  "startsWith s p = (take (length p) s = p)"

fun includesStr :: "string \<Rightarrow> string \<Rightarrow> bool" where
  "includesStr [] sub = (sub = [])"
| "includesStr (c # cs) sub = (startsWith (c # cs) sub \<or> includesStr cs sub)"

definition getFileCategory :: "string \<Rightarrow> string" where
  "getFileCategory mimeType =
     (if startsWith mimeType ''image/'' then ''image''
      else if mimeType = ''application/pdf'' \<or> includesStr mimeType ''document'' \<or>
              includesStr mimeType ''word''
      then ''document''
      else ''other'')"

section \<open>middleware/auth.js\<close>





record json_error =
  status :: nat
  errorText :: string
  message :: string




section \<open>The storage backend and the other effects\<close>

text \<open>
  A call of the storage client resolves to \<open>{ data, error: null }\<close> or to
  \<open>{ data: null, error }\<close>, or it throws (a rejected promise).
\<close>

datatype 'a storage_reply = Data 'a | Error string | Throws

record upload_file =
  originalname :: string
  mimetype :: string
  fsize :: nat
  buffer :: string

record storage_object =
  name :: string
  metadataSize :: "nat option"
  updated_at :: "string option"
  created_at :: "string option"

text \<open>
  Everything outside the process is one record. The handlers run their effects in
  sequence; the model counts them with a tick, and the \<open>n\<close>-th effect of a run asks
  the world at tick \<open>n\<close>, so that the clock, the identifiers and the backend may
  answer differently at every call. \<open>formatFileSize\<close> of utils/fileUtils.js works
  in floating point (\<open>Math.log\<close>, \<open>toFixed\<close>) and is a parameter here.
\<close>

record world =
  nowAt :: "nat \<Rightarrow> date_utc"
  uuidAt :: "nat \<Rightarrow> string"
  storageUpload :: "nat \<Rightarrow> string \<Rightarrow> string \<Rightarrow> upload_file \<Rightarrow> unit storage_reply"
  storageList :: "nat \<Rightarrow> string \<Rightarrow> string \<Rightarrow> storage_object list storage_reply"
  storageRemove :: "nat \<Rightarrow> string \<Rightarrow> string list \<Rightarrow> unit storage_reply"
  getPublicUrl :: "string \<Rightarrow> string \<Rightarrow> string"
  formatFileSize :: "nat \<Rightarrow> string"

text \<open>config/supabase.js: the three bucket names, each with its default.\<close>

record buckets =
  PHOTOS :: string
  MENUS :: string
  PRICING :: string

text \<open>\<open>v || d\<close> for a string or \<open>undefined\<close> on the left.\<close>

definition orDefault :: "string option \<Rightarrow> string \<Rightarrow> string" where
  "orDefault v d = (case v of None \<Rightarrow> d | Some s \<Rightarrow> if s = [] then d else s)"

definition BUCKETS :: "string option \<Rightarrow> string option \<Rightarrow> string option \<Rightarrow> buckets" where
  "BUCKETS photosEnv menusEnv pricingEnv =
     \<lparr>PHOTOS = orDefault photosEnv ''photos'',
      MENUS = orDefault menusEnv ''menus'',
      PRICING = orDefault pricingEnv ''pricing''\<rparr>"


section \<open>routes/upload.js\<close>

text \<open>
  One element of \<open>uploadResults\<close>: the object pushed after a successful upload, or
  the three-field object pushed on a failure (\<open>success: false\<close>).
\<close>

datatype upload_result =
  Uploaded
    (res_originalName: string) (res_fileName: string) (res_filePath: string)
    (res_url: string) (res_size: nat) (res_formattedSize: string)
    (res_mimeType: string) (res_category: string) (res_uploadedAt: string)
| Failed (res_originalName: string) (res_error: string)

fun res_success :: "upload_result \<Rightarrow> bool" where
  "res_success (Uploaded _ _ _ _ _ _ _ _ _) = True"
| "res_success (Failed _ _) = False"

text \<open>
  The body of the \<open>for\<close> loop of \<open>uploadFilesToBucket\<close> for one file, started at
  tick \<open>t\<close>: the clock and the identifier of \<open>generateFileName\<close> (ticks \<open>t\<close>,
  \<open>t + 1\<close>), the upload (tick \<open>t + 2\<close>) and, after a successful upload, the clock of
  \<open>uploadedAt\<close> (tick \<open>t + 3\<close>). The \<open>catch\<close> branch is the reply \<open>Throws\<close>.
\<close>

definition uploadOne ::
  "world \<Rightarrow> string \<Rightarrow> string \<Rightarrow> string \<Rightarrow> upload_file \<Rightarrow> nat \<Rightarrow> upload_result \<times> nat" where
  "uploadOne w bucketName venueName category f t =
     (let folderPath = generateFolderPath venueName category;
          fileName = generateFileName venueName (originalname f) category
                       (nowAt w t) (uuidAt w (t + 1));
          filePath = folderPath @ ''/'' @ fileName
      in case storageUpload w (t + 2) bucketName filePath f of
           Error msg \<Rightarrow> (Failed (originalname f) msg, t + 3)
         | Throws \<Rightarrow> (Failed (originalname f) ''Unexpected upload error'', t + 3)
         | Data _ \<Rightarrow>
             (Uploaded (originalname f) fileName filePath
                (getPublicUrl w bucketName filePath) (fsize f)
                (formatFileSize w (fsize f)) (mimetype f)
                (getFileCategory (mimetype f))
                (toISOString (nowAt w (t + 3))),
              t + 4))"

fun uploadLoop ::
  "world \<Rightarrow> string \<Rightarrow> string \<Rightarrow> string \<Rightarrow> upload_file list \<Rightarrow> nat \<Rightarrow> upload_result list \<times> nat" where
  "uploadLoop w bucketName venueName category [] t = ([], t)"
| "uploadLoop w bucketName venueName category (f # fs) t =
     (let (r, t1) = uploadOne w bucketName venueName category f t;
          (rs, t2) = uploadLoop w bucketName venueName category fs t1
      in (r # rs, t2))"

text \<open>The parameter default \<open>category = ''\<close> applies when the caller passes \<open>undefined\<close>.\<close>

definition uploadFilesToBucket ::
  "world \<Rightarrow> upload_file list \<Rightarrow> string \<Rightarrow> string \<Rightarrow> string option \<Rightarrow> nat
     \<Rightarrow> upload_result list \<times> nat" where
  "uploadFilesToBucket w files bucketName venueName category t =
     uploadLoop w bucketName venueName (case category of None \<Rightarrow> [] | Some c \<Rightarrow> c) files t"

text \<open>Decimal digits of a number inside a template string.\<close>

fun showNat :: "nat \<Rightarrow> string" where
  "showNat n = (if n < 10 then [digit n] else showNat (n div 10) @ [digit n])"

declare showNat.simps [simp del]

record upload_body =
  body_venueName :: "string option"
  body_category :: "string option"

datatype upload_response =
  UploadRejected json_error
| UploadDone
    (resp_message: string) (resp_uploads: "upload_result list") (resp_bucket: string)
    (resp_venue: string) (resp_category: "string option")

text \<open>
  The handler of \<open>POST /photos\<close>, after the middleware. \<open>!venueName\<close> holds for
  \<open>undefined\<close> and for the empty string. \<open>resp_category\<close> is the \<open>category\<close>
  field of the response, \<open>category || 'general'\<close>.
\<close>

definition photosHandler ::
  "world \<Rightarrow> buckets \<Rightarrow> upload_body \<Rightarrow> upload_file list \<Rightarrow> nat \<Rightarrow> upload_response \<times> nat" where
  "photosHandler w b body files t =
     (let venueName = orDefault (body_venueName body) [];
          category = body_category body
      in if venueName = []
         then (UploadRejected \<lparr>status = 400, errorText = ''Venue name required'',
                                message = ''Please provide a venue name''\<rparr>, t)
         else
           let (uploadResults, t1) =
                 uploadFilesToBucket w files (PHOTOS b) venueName category t
           in (UploadDone
                 (''Successfully uploaded '' @ showNat (length uploadResults) @
                  '' file(s) to photos bucket'')
                 uploadResults (PHOTOS b) venueName
                 (Some (orDefault category ''general'')),
               t1))"

section \<open>routes/venues.js\<close>

text \<open>
  \<open>GET /\<close>: the loop over the buckets. \<open>venues\<close> is the \<open>Set\<close>, kept as the list
  of its elements in insertion order; \<open>None\<close> is an exception leaving the loop.
\<close>

definition addVenues :: "storage_object list \<Rightarrow> string list \<Rightarrow> string list" where
  "addVenues files venues =
     fold (\<lambda>f vs. if name f \<noteq> [] \<and> \<not> includesStr (name f) ''.''
                   then (if name f \<in> set vs then vs else vs @ [name f]) else vs)
          files venues"

fun listVenuesLoop :: "world \<Rightarrow> string list \<Rightarrow> nat \<Rightarrow> string list \<Rightarrow> string list option" where
  "listVenuesLoop w [] t venues = Some venues"
| "listVenuesLoop w (bucketName # rest) t venues =
     (case storageList w t bucketName [] of
        Throws \<Rightarrow> None
      | Error msg \<Rightarrow> listVenuesLoop w rest (t + 1) venues
      | Data files \<Rightarrow> listVenuesLoop w rest (t + 1) (addVenues files venues))"











section \<open>The specification's reading of the sanitizer\<close>

text \<open>
  The steps as the specification words them, each written without reference to the
  source: strip every character outside a class, collapse every run of a class to a
  single hyphen, trim all leading and trailing hyphens.
\<close>

definition spec_strip :: "(char \<Rightarrow> bool) \<Rightarrow> string \<Rightarrow> string" where
  "spec_strip allowed s = [c \<leftarrow> s. allowed c]"

fun spec_collapse :: "(char \<Rightarrow> bool) \<Rightarrow> string \<Rightarrow> string" where
  "spec_collapse cls (a # b # cs) =
     (if cls a \<and> cls b then spec_collapse cls (b # cs)
      else (if cls a then CHR ''-'' else a) # spec_collapse cls (b # cs))"
| "spec_collapse cls [a] = [if cls a then CHR ''-'' else a]"
| "spec_collapse cls [] = []"

definition spec_trim :: "string \<Rightarrow> string" where
  "spec_trim s = rev (dropWhile isHyphen (rev (dropWhile isHyphen s)))"

definition spec_sanitize :: "(char \<Rightarrow> bool) \<Rightarrow> string \<Rightarrow> string" where
  "spec_sanitize allowed raw =
     spec_trim (spec_collapse isHyphen (spec_collapse isSpace
       (spec_strip allowed (toLowerCase raw))))"

text \<open>The class \<open>[a-z0-9 -]\<close> with the space only, and the class \<open>[a-z0-9\s-]\<close>.\<close>

definition spaceOnlyClass :: "char \<Rightarrow> bool" where
  "spaceOnlyClass c = (isAlnum c \<or> c = CHR '' '' \<or> c = CHR ''-'')"

definition whitespaceClass :: "char \<Rightarrow> bool" where
  "whitespaceClass c = (isAlnum c \<or> isSpace c \<or> c = CHR ''-'')"

text \<open>
  A matcher for \<open>^[a-z0-9]+(-[a-z0-9]+)*$\<close>: a non-empty run of \<open>[a-z0-9]\<close>, and
  then either the end of the string or a hyphen followed by a match of the same
  expression.
\<close>

function venueShape :: "string \<Rightarrow> bool" where
  "venueShape s =
     (takeWhile isAlnum s \<noteq> [] \<and>
      (case dropWhile isAlnum s of
         [] \<Rightarrow> True
       | c # rest \<Rightarrow> c = CHR ''-'' \<and> venueShape rest))"
  by pat_completeness auto
termination
proof (relation "measure length")
  fix s c rest
  assume "dropWhile isAlnum s = c # rest"
  then have "length (c # rest) \<le> length s"
    by (metis length_dropWhile_le)
  then show "(rest, s) \<in> measure length"
    by simp
qed simp

declare venueShape.simps [simp del]

section \<open>Auxiliary definitions of the proofs\<close>

text \<open>
  The shape of a sanitized name in three parts (its characters, no two hyphens in a
  row, no hyphen at either end) and the two halves of \<open>stripEdgeHyphens\<close>.
\<close>

fun noDoubleHyphen :: "string \<Rightarrow> bool" where
  "noDoubleHyphen (a # b # cs) =
     (\<not> (a = CHR ''-'' \<and> b = CHR ''-'') \<and> noDoubleHyphen (b # cs))"
| "noDoubleHyphen cs = True"

definition trimmed :: "string \<Rightarrow> bool" where
  "trimmed s = (s = [] \<or> (hd s \<noteq> CHR ''-'' \<and> last s \<noteq> CHR ''-''))"

definition venueChar :: "char \<Rightarrow> bool" where
  "venueChar c = (isAlnum c \<or> c = CHR ''-'')"

definition wellFormed :: "string \<Rightarrow> bool" where
  "wellFormed s = ((\<forall>c\<in>set s. venueChar c) \<and> noDoubleHyphen s \<and> trimmed s)"

definition dropLead :: "string \<Rightarrow> string" where
  "dropLead s = (case s of [] \<Rightarrow> [] | c # cs \<Rightarrow> if c = CHR ''-'' then cs else c # cs)"

definition dropTrail :: "string \<Rightarrow> string" where
  "dropTrail s = (if s \<noteq> [] \<and> last s = CHR ''-'' then butlast s else s)"

text \<open>
  What one element of \<open>uploadResults\<close> says about its file: the file's name, failure
  when the backend accepts the file at no path, success when it accepts it at every
  path, and the classification of the MIME type on success.
\<close>

definition fileResult :: "world \<Rightarrow> string \<Rightarrow> upload_file \<Rightarrow> upload_result \<Rightarrow> bool" where
  "fileResult w bucketName f r =
     (res_originalName r = originalname f \<and>
      ((\<forall>n p. storageUpload w n bucketName p f \<noteq> Data ()) \<longrightarrow> \<not> res_success r) \<and>
      ((\<forall>n p. storageUpload w n bucketName p f = Data ()) \<longrightarrow> res_success r) \<and>
      (res_success r \<longrightarrow> res_category r = getFileCategory (mimetype f)))"

section \<open>What a listing contributes\<close>



section \<open>The specification's timestamp and error names\<close>

text \<open>The timestamp \<open>YYYY-MM-DDTHH-MM-SS\<close> of an instant, at second precision.\<close>

definition spec_timestamp :: "date_utc \<Rightarrow> string" where
  "spec_timestamp now =
     pad4 (nat (year now)) @ ''-'' @ pad2 (month now) @ ''-'' @ pad2 (day now) @ ''T'' @
     pad2 (hours now) @ ''-'' @ pad2 (minutes now) @ ''-'' @ pad2 (seconds now)"




section \<open>A world for the worked examples\<close>

text \<open>
  A concrete outside world, used where a property is evaluated on an example: the clock
  stands in one second and only its milliseconds advance, every identifier is the same,
  and the backend answers an upload by the file, a listing by the bucket and a removal
  with one fixed reply. Sizes are printed in whole bytes below 1024 and in whole
  kilobytes from there.
\<close>

definition exampleWorld ::
  "(upload_file \<Rightarrow> unit storage_reply) \<Rightarrow> (string \<Rightarrow> storage_object list storage_reply)
     \<Rightarrow> unit storage_reply \<Rightarrow> world" where
  "exampleWorld uploadReply listReply removeReply =
     \<lparr>nowAt = (\<lambda>n. \<lparr>year = 2026, month = 11, day = 2, hours = 19, minutes = 35,
                       seconds = 7, millis = n mod 1000\<rparr>),
      uuidAt = (\<lambda>n. ''123e4567-e89b-42d3-a456-426614174000''),
      storageUpload = (\<lambda>n bucketName filePath f. uploadReply f),
      storageList = (\<lambda>n bucketName prefix. listReply bucketName),
      storageRemove = (\<lambda>n bucketName paths. removeReply),
      getPublicUrl = (\<lambda>bucketName filePath. ''https://storage.example/'' @ bucketName @ ''/'' @ filePath),
      formatFileSize = (\<lambda>n. if n < 1024 then showNat n @ '' Bytes''
                             else showNat (n div 1024) @ '' KB'')\<rparr>"

section \<open>Properties\<close>

subsection \<open>The steps of the sanitizer\<close>

lemma isHyphen_iff: "isHyphen c \<longleftrightarrow> c = CHR ''-''"
  by (simp add: isHyphen_def)

lemma set_replaceRuns: "set (replaceRuns cls r s) \<subseteq> {c \<in> set s. \<not> cls c} \<union> set r"
proof (induction cls r s rule: replaceRuns.induct)
  case (1 cls r) show ?case by simp
next
  case (2 cls r c cs)
  show ?case
  proof (cases "cls c")
    case True
    have "set (dropWhile cls cs) \<subseteq> set cs" by (simp add: set_dropWhileD subsetI)
    moreover have "set (replaceRuns cls r (dropWhile cls cs))
        \<subseteq> {c \<in> set (dropWhile cls cs). \<not> cls c} \<union> set r"
      using 2(1) True by simp
    ultimately have "set (replaceRuns cls r (dropWhile cls cs)) \<subseteq> {c \<in> set cs. \<not> cls c} \<union> set r"
      by blast
    with True show ?thesis by auto
  next
    case False
    with 2(2) have "set (replaceRuns cls r cs) \<subseteq> {c \<in> set cs. \<not> cls c} \<union> set r" by simp
    with False show ?thesis by auto
  qed
qed

lemma replaceRuns_id: "\<forall>c\<in>set s. \<not> cls c \<Longrightarrow> replaceRuns cls r s = s"
  by (induction s) auto

lemma noDoubleHyphen_Cons:
  "noDoubleHyphen (c # cs) = (noDoubleHyphen cs \<and> (c = CHR ''-'' \<longrightarrow> cs = [] \<or> hd cs \<noteq> CHR ''-''))"
  by (cases cs) auto

lemma hd_replaceRuns_not:
  "s \<noteq> [] \<Longrightarrow> \<not> cls (hd s) \<Longrightarrow> replaceRuns cls r s \<noteq> [] \<and> hd (replaceRuns cls r s) = hd s"
  by (cases s) auto

lemma dropWhile_head: "dropWhile P s = [] \<or> \<not> P (hd (dropWhile P s))"
  by (metis hd_dropWhile)

lemma noDoubleHyphen_replaceRuns: "noDoubleHyphen (replaceRuns isHyphen ''-'' s)"
proof (induction s rule: length_induct)
  case (1 s)
  show ?case
  proof (cases s)
    case Nil then show ?thesis by simp
  next
    case (Cons c cs)
    show ?thesis
    proof (cases "isHyphen c")
      case True
      let ?d = "dropWhile isHyphen cs"
      let ?t = "replaceRuns isHyphen ''-'' ?d"
      have "length ?d < length s" using Cons by (simp add: length_dropWhile_le less_Suc_eq_le)
      with 1 have nd: "noDoubleHyphen ?t" by blast
      have "?d = [] \<or> \<not> isHyphen (hd ?d)" by (rule dropWhile_head)
      then have "?t = [] \<or> \<not> isHyphen (hd ?t)"
        using hd_replaceRuns_not[of ?d isHyphen "''-''"] by fastforce
      then have "?t = [] \<or> hd ?t \<noteq> CHR ''-''" unfolding isHyphen_iff .
      with nd have "noDoubleHyphen (CHR ''-'' # ?t)" by (simp only: noDoubleHyphen_Cons simp_thms)
      moreover have "replaceRuns isHyphen ''-'' s = CHR ''-'' # ?t" using Cons True by simp
      ultimately show ?thesis by simp
    next
      case False
      then have ne: "c \<noteq> CHR ''-''" unfolding isHyphen_iff .
      have "length cs < length s" using Cons by simp
      with 1 have nd: "noDoubleHyphen (replaceRuns isHyphen ''-'' cs)" by blast
      with ne have "noDoubleHyphen (c # replaceRuns isHyphen ''-'' cs)"
        by (simp only: noDoubleHyphen_Cons simp_thms)
      moreover have "replaceRuns isHyphen ''-'' s = c # replaceRuns isHyphen ''-'' cs"
        using Cons False by simp
      ultimately show ?thesis by simp
    qed
  qed
qed

lemma replaceRuns_hyphen_id: "noDoubleHyphen s \<Longrightarrow> replaceRuns isHyphen ''-'' s = s"
proof (induction s)
  case Nil show ?case by simp
next
  case (Cons c cs)
  then have nd: "noDoubleHyphen cs" and h: "c = CHR ''-'' \<longrightarrow> cs = [] \<or> hd cs \<noteq> CHR ''-''"
    by (simp_all add: noDoubleHyphen_Cons)
  show ?case
  proof (cases "isHyphen c")
    case True
    then have c: "c = CHR ''-''" unfolding isHyphen_iff .
    with h have "cs = [] \<or> \<not> isHyphen (hd cs)" unfolding isHyphen_iff by simp
    then have "dropWhile isHyphen cs = cs" by (cases cs) auto
    then show ?thesis using True Cons.IH nd c by simp
  next
    case False
    with Cons.IH nd show ?thesis by simp
  qed
qed

lemma noDoubleHyphen_snoc:
  "noDoubleHyphen (xs @ [a]) = (noDoubleHyphen xs \<and> (a = CHR ''-'' \<longrightarrow> xs = [] \<or> last xs \<noteq> CHR ''-''))"
proof (induction xs)
  case Nil show ?case by simp
next
  case (Cons x xs)
  show ?case
  proof (cases xs)
    case Nil then show ?thesis by auto
  next
    case (Cons y ys)
    with Cons.IH show ?thesis by (simp add: noDoubleHyphen_Cons) blast
  qed
qed

lemma stripEdge_eq: "stripEdgeHyphens s = dropTrail (dropLead s)"
  by (simp add: stripEdgeHyphens_def dropTrail_def dropLead_def Let_def)

lemma dropLead_props:
  assumes "noDoubleHyphen s"
  shows "noDoubleHyphen (dropLead s)" "dropLead s = [] \<or> hd (dropLead s) \<noteq> CHR ''-''"
    "set (dropLead s) \<subseteq> set s" "dropLead s = dropWhile isHyphen s"
  using assms by (cases s; auto simp: dropLead_def noDoubleHyphen_Cons isHyphen_iff; cases "tl s"; auto simp: isHyphen_iff)+

lemma dropTrail_props:
  assumes "noDoubleHyphen s" "s = [] \<or> hd s \<noteq> CHR ''-''"
  shows "noDoubleHyphen (dropTrail s) \<and> trimmed (dropTrail s) \<and>
    set (dropTrail s) \<subseteq> set s \<and> dropTrail s = rev (dropWhile isHyphen (rev s))"
proof (cases "s \<noteq> [] \<and> last s = CHR ''-''")
  case True
  then obtain xs where s: "s = xs @ [CHR ''-'']" by (metis append_butlast_last_id)
  with assms(1) have nd: "noDoubleHyphen xs" and l: "xs = [] \<or> last xs \<noteq> CHR ''-''"
    by (simp_all add: noDoubleHyphen_snoc)
  have dt: "dropTrail s = xs" using s by (simp add: dropTrail_def)
  have "trimmed xs" using l assms(2) s by (cases xs) (auto simp: trimmed_def)
  moreover have "dropWhile isHyphen (rev xs) = rev xs"
    using l by (cases xs rule: rev_cases) (auto simp: isHyphen_iff)
  then have "xs = rev (dropWhile isHyphen (rev s))" using s by (simp add: isHyphen_iff)
  moreover have "set xs \<subseteq> set s" using s by auto
  ultimately show ?thesis using nd dt by simp
next
  case False
  then have dt: "dropTrail s = s" by (auto simp: dropTrail_def)
  have "trimmed s" using False assms(2) by (auto simp: trimmed_def)
  moreover have "dropWhile isHyphen (rev s) = rev s"
    using False by (cases s rule: rev_cases) (auto simp: isHyphen_iff)
  ultimately show ?thesis using dt assms(1) by simp
qed

lemma venueChar_not_space: "venueChar c \<Longrightarrow> \<not> isSpace c"
  by (auto simp: venueChar_def isAlnum_def isLower_def isDigit_def isSpace_def Let_def)

lemma venueChar_lower: "venueChar c \<Longrightarrow> toLowerChar c = c"
  by (auto simp: venueChar_def isAlnum_def isLower_def isDigit_def toLowerChar_def Let_def)

lemma sanitize_wellFormed: "wellFormed (sanitizeVenueName x)"
proof -
  let ?keep = "\<lambda>c. isAlnum c \<or> isSpace c \<or> isHyphen c"
  let ?s2 = "keepOnly ?keep (toLowerCase x)"
  let ?s3 = "replaceRuns isSpace ''-'' ?s2"
  let ?s4 = "replaceRuns isHyphen ''-'' ?s3"
  have 2: "\<forall>c\<in>set ?s2. ?keep c" by (simp add: keepOnly_def)
  have "set ?s3 \<subseteq> {c \<in> set ?s2. \<not> isSpace c} \<union> set ''-''" by (rule set_replaceRuns)
  with 2 have 3: "\<forall>c\<in>set ?s3. venueChar c"
    by (auto simp: venueChar_def isHyphen_iff)
  have "set ?s4 \<subseteq> {c \<in> set ?s3. \<not> isHyphen c} \<union> set ''-''" by (rule set_replaceRuns)
  with 3 have 4: "\<forall>c\<in>set ?s4. venueChar c"
    by (auto simp: venueChar_def)
  have nd4: "noDoubleHyphen ?s4" by (rule noDoubleHyphen_replaceRuns)
  note lead = dropLead_props[OF nd4]
  note trail = dropTrail_props[OF lead(1) lead(2)]
  have out: "sanitizeVenueName x = dropTrail (dropLead ?s4)"
    by (simp add: sanitizeVenueName_def stripEdge_eq)
  have "set (dropTrail (dropLead ?s4)) \<subseteq> set ?s4" using lead(3) trail by blast
  with 4 have "\<forall>c\<in>set (dropTrail (dropLead ?s4)). venueChar c" by blast
  with trail show ?thesis unfolding out wellFormed_def by blast
qed

lemma wellFormed_fixpoint:
  assumes "wellFormed s"
  shows "sanitizeVenueName s = s"
proof -
  from assms have ch: "\<forall>c\<in>set s. venueChar c" and nd: "noDoubleHyphen s" and tr: "trimmed s"
    by (simp_all add: wellFormed_def)
  have 1: "toLowerCase s = s" using ch by (simp add: toLowerCase_def venueChar_lower map_idI)
  have 2: "keepOnly (\<lambda>c. isAlnum c \<or> isSpace c \<or> isHyphen c) s = s"
    unfolding keepOnly_def by (rule filter_True) (use ch in \<open>auto simp: venueChar_def isHyphen_iff\<close>)
  have 3: "replaceRuns isSpace ''-'' s = s"
    using ch by (intro replaceRuns_id) (auto dest: venueChar_not_space)
  have 4: "replaceRuns isHyphen ''-'' s = s" using nd by (rule replaceRuns_hyphen_id)
  have 5: "stripEdgeHyphens s = s"
    using tr by (cases s) (auto simp: stripEdgeHyphens_def trimmed_def Let_def)
  show ?thesis by (simp add: sanitizeVenueName_def 1 2 3 4 5)
qed

lemma noDoubleHyphen_dropWhile: "noDoubleHyphen s \<Longrightarrow> noDoubleHyphen (dropWhile P s)"
  by (induction s) (auto simp: noDoubleHyphen_Cons)

lemma wellFormed_venueShape: "wellFormed s \<Longrightarrow> s \<noteq> [] \<Longrightarrow> venueShape s"
proof (induction s rule: length_induct)
  case (1 s)
  from 1(2) have ch: "\<forall>c\<in>set s. venueChar c" and nd: "noDoubleHyphen s" and tr: "trimmed s"
    by (simp_all add: wellFormed_def)
  from tr 1(3) have h: "hd s \<noteq> CHR ''-''" and l: "last s \<noteq> CHR ''-''" by (simp_all add: trimmed_def)
  from ch h 1(3) have "isAlnum (hd s)" by (cases s) (auto simp: venueChar_def)
  then have tw: "takeWhile isAlnum s \<noteq> []" using 1(3) by (cases s) auto
  show ?case
  proof (cases "dropWhile isAlnum s")
    case Nil
    have "venueShape s = (takeWhile isAlnum s \<noteq> [])"
      by (subst venueShape.simps) (simp only: Nil list.case simp_thms)
    with tw show ?thesis by simp
  next
    case (Cons c rest)
    have s: "s = takeWhile isAlnum s @ c # rest" using Cons by (metis takeWhile_dropWhile_id)
    have "\<not> isAlnum c" using Cons by (metis hd_dropWhile list.sel(1) list.distinct(1))
    moreover have "c \<in> set s" using s by (metis in_set_conv_decomp)
    ultimately have c: "c = CHR ''-''" using ch by (auto simp: venueChar_def)
    have "noDoubleHyphen (c # rest)" using nd Cons noDoubleHyphen_dropWhile[of s isAlnum] by simp
    with c have r: "rest = [] \<or> hd rest \<noteq> CHR ''-''" and ndr: "noDoubleHyphen rest"
      by (simp_all add: noDoubleHyphen_Cons)
    have rne: "rest \<noteq> []"
    proof
      assume "rest = []"
      with s have "last s = c" by (metis last_appendR last.simps list.distinct(1))
      with c l show False by simp
    qed
    have "last rest = last s" using s rne by (metis last_appendR last_ConsR list.distinct(1))
    with l r rne have "trimmed rest" by (simp add: trimmed_def)
    moreover have "set rest \<subseteq> set s" using s by (metis set_subset_Cons set_append Un_upper2 subset_trans list.set(2))
    ultimately have "wellFormed rest" using ch ndr by (auto simp: wellFormed_def)
    moreover have "length rest < length s" using s by (metis length_append length_Cons less_add_Suc2 add_Suc_right less_SucI)
    ultimately have "venueShape rest" using 1(1) rne by blast
    moreover have "venueShape s = (takeWhile isAlnum s \<noteq> [] \<and> c = CHR ''-'' \<and> venueShape rest)"
      by (subst venueShape.simps) (simp only: Cons list.case simp_thms)
    ultimately show ?thesis using tw c by simp
  qed
qed

lemma replaceRuns_spec_collapse: "replaceRuns cls ''-'' s = spec_collapse cls s"
proof (induction cls s rule: spec_collapse.induct)
  case (1 cls a b cs)
  show ?case
  proof (cases "cls a")
    case True
    show ?thesis
    proof (cases "cls b")
      case True
      with \<open>cls a\<close> 1(1) show ?thesis by simp
    next
      case False
      with \<open>cls a\<close> 1(2) show ?thesis by simp
    qed
  next
    case False
    with 1(2) show ?thesis by simp
  qed
next
  case (2 cls a) show ?case by simp
next
  case (3 cls) show ?case by simp
qed

lemma stripEdge_spec_trim:
  assumes "noDoubleHyphen s"
  shows "stripEdgeHyphens s = spec_trim s"
proof -
  note lead = dropLead_props[OF assms]
  from dropTrail_props[OF lead(1) lead(2)]
  have "dropTrail (dropLead s) = rev (dropWhile isHyphen (rev (dropLead s)))" by blast
  with lead(4) show ?thesis by (simp add: stripEdge_eq spec_trim_def)
qed

lemma whitespaceClass_eq: "whitespaceClass = (\<lambda>c. isAlnum c \<or> isSpace c \<or> isHyphen c)"
  by (rule ext) (simp add: whitespaceClass_def isHyphen_iff)

lemma sanitize_refines_spec: "sanitizeVenueName x = spec_sanitize whitespaceClass x"
proof -
  let ?s3 = "replaceRuns isSpace ''-'' (keepOnly whitespaceClass (toLowerCase x))"
  have "noDoubleHyphen (replaceRuns isHyphen ''-'' ?s3)" by (rule noDoubleHyphen_replaceRuns)
  then have "stripEdgeHyphens (replaceRuns isHyphen ''-'' ?s3) = spec_trim (replaceRuns isHyphen ''-'' ?s3)"
    by (rule stripEdge_spec_trim)
  then show ?thesis
    by (simp add: sanitizeVenueName_def spec_sanitize_def whitespaceClass_eq[symmetric]
        replaceRuns_spec_collapse keepOnly_def spec_strip_def)
qed

subsection \<open>Claims about \<open>sanitizeVenueName\<close>\<close>

text \<open>
  C2. The venue-name sanitizer is idempotent: for every string \<open>x\<close>, sanitizing the
  sanitized string gives the sanitized string again.
\<close>

theorem sanitizeVenueName_idempotent:
  "sanitizeVenueName (sanitizeVenueName x) = sanitizeVenueName x"
  by (rule wellFormed_fixpoint) (rule sanitize_wellFormed)

text \<open>C2 at \<open>"  --Multi   Space--  "\<close>.\<close>

theorem sanitizeVenueName_idempotent_witness:
  "sanitizeVenueName (sanitizeVenueName ''  --Multi   Space--  '') = ''multi-space''"
proof -
  have "sanitizeVenueName ''  --Multi   Space--  '' = ''multi-space''"
    by code_simp
  with sanitizeVenueName_idempotent[of "''  --Multi   Space--  ''"] show ?thesis
    by simp
qed

text \<open>
  C3, as the claim states it, fails: the source keeps every whitespace character of
  \<open>\s\<close> in the stripping step and turns it into a hyphen afterwards, where the
  claimed class \<open>[a-z0-9 -]\<close> would delete a tab. On the string \<open>a<TAB>b\<close> the
  source returns \<open>a-b\<close> and the claimed algorithm \<open>ab\<close>.
\<close>

theorem sanitizeVenueName_space_only_counterexample:
  "sanitizeVenueName [CHR ''a'', CHR 0x09, CHR ''b''] = ''a-b'' \<and>
   spec_sanitize spaceOnlyClass [CHR ''a'', CHR 0x09, CHR ''b''] = ''ab'' \<and>
   sanitizeVenueName [CHR ''a'', CHR 0x09, CHR ''b''] \<noteq>
   spec_sanitize spaceOnlyClass [CHR ''a'', CHR 0x09, CHR ''b'']"
  by code_simp

text \<open>
  C3, amended. The venue-name sanitizer computes exactly this algorithm: lower-case
  the input, strip every character that is not in \<open>[a-z0-9]\<close>, not a whitespace
  character of \<open>\s\<close> and not a hyphen, collapse runs of whitespace to a single hyphen,
  collapse runs of hyphens to one, and trim leading and trailing hyphens; in particular
  \<open>"Grand Ballroom!!"\<close> becomes \<open>"grand-ballroom"\<close> and \<open>"  --Multi   Space--  "\<close>
  becomes \<open>"multi-space"\<close>.
\<close>

theorem sanitizeVenueName_algorithm:
  "sanitizeVenueName x = spec_sanitize whitespaceClass x \<and>
   sanitizeVenueName ''Grand Ballroom!!'' = ''grand-ballroom'' \<and>
   sanitizeVenueName ''  --Multi   Space--  '' = ''multi-space''"
proof -
  have "sanitizeVenueName ''Grand Ballroom!!'' = ''grand-ballroom''"
    by code_simp
  moreover have "sanitizeVenueName ''  --Multi   Space--  '' = ''multi-space''"
    by code_simp
  ultimately show ?thesis
    using sanitize_refines_spec by simp
qed

text \<open>C3, amended, at a string with a capital, a tab, a hyphen and a bang.\<close>

theorem sanitizeVenueName_algorithm_witness:
  "sanitizeVenueName [CHR ''A'', CHR 0x09, CHR ''-'', CHR ''b'', CHR ''!''] = ''a-b'' \<and>
   spec_sanitize whitespaceClass [CHR ''A'', CHR 0x09, CHR ''-'', CHR ''b'', CHR ''!''] = ''a-b''"
proof -
  have "sanitizeVenueName [CHR ''A'', CHR 0x09, CHR ''-'', CHR ''b'', CHR ''!''] = ''a-b''"
    by code_simp
  with sanitizeVenueName_algorithm[of "[CHR ''A'', CHR 0x09, CHR ''-'', CHR ''b'', CHR ''!'']"]
  show ?thesis
    by simp
qed

text \<open>
  C4. The sanitizer is total and its output is well-shaped: for every input string the
  result is the empty string or matches \<open>^[a-z0-9]+(-[a-z0-9]+)*$\<close>: it has only
  lower-case letters, digits and hyphens, no hyphen at either end and no two hyphens
  in a row.
\<close>

theorem sanitizeVenueName_shape:
  "sanitizeVenueName x = [] \<or>
   (venueShape (sanitizeVenueName x) \<and>
    (\<forall>c\<in>set (sanitizeVenueName x). isAlnum c \<or> c = CHR ''-'') \<and>
    hd (sanitizeVenueName x) \<noteq> CHR ''-'' \<and>
    last (sanitizeVenueName x) \<noteq> CHR ''-'' \<and>
    noDoubleHyphen (sanitizeVenueName x))"
proof (cases "sanitizeVenueName x = []")
  case True
  then show ?thesis
    by simp
next
  case False
  have wf: "wellFormed (sanitizeVenueName x)"
    by (rule sanitize_wellFormed)
  then have "venueShape (sanitizeVenueName x)"
    using False by (rule wellFormed_venueShape)
  with wf False show ?thesis
    by (simp add: wellFormed_def venueChar_def trimmed_def)
qed

text \<open>C4 at \<open>"Grand Ballroom!!"\<close>, where the result is not empty.\<close>

theorem sanitizeVenueName_shape_witness:
  "sanitizeVenueName ''Grand Ballroom!!'' = ''grand-ballroom'' \<and> venueShape ''grand-ballroom''"
proof -
  have e: "sanitizeVenueName ''Grand Ballroom!!'' = ''grand-ballroom''"
    by code_simp
  with sanitizeVenueName_shape[of "''Grand Ballroom!!''"] show ?thesis
    by simp
qed

subsection \<open>Folder paths and classification\<close>

lemma startsWith_prefix: "startsWith s p \<longleftrightarrow> prefix p s"
proof
  assume "startsWith s p"
  then have "s = p @ drop (length p) s"
    unfolding startsWith_def by (metis append_take_drop_id)
  then show "prefix p s" by (metis prefixI)
next
  assume "prefix p s"
  then obtain zs where "s = p @ zs" by (auto simp: prefix_def)
  then show "startsWith s p" by (simp add: startsWith_def)
qed

lemma includesStr_sublist: "includesStr s sub \<longleftrightarrow> sublist sub s"
  by (induction s) (auto simp: startsWith_prefix sublist_Cons_right)

text \<open>
  C6. For every venue string and category string, \<open>generateFolderPath\<close> returns the
  sanitized venue alone when the category is empty, and the sanitized venue, a slash
  and the sanitized category (lower-cased, every character outside \<open>[a-z0-9]\<close>
  stripped) when the category is not empty; in particular \<open>("The Grand Hotel", "")\<close>
  gives \<open>"the-grand-hotel"\<close> and \<open>("The Grand Hotel", "Ceremony")\<close> gives
  \<open>"the-grand-hotel/ceremony"\<close>.
\<close>

theorem generateFolderPath_contract:
  "generateFolderPath venue category =
     (if category = [] then sanitizeVenueName venue
      else sanitizeVenueName venue @ ''/'' @ spec_strip isAlnum (toLowerCase category)) \<and>
   generateFolderPath ''The Grand Hotel'' '''' = ''the-grand-hotel'' \<and>
   generateFolderPath ''The Grand Hotel'' ''Ceremony'' = ''the-grand-hotel/ceremony''"
proof -
  have "generateFolderPath ''The Grand Hotel'' '''' = ''the-grand-hotel''"
    by code_simp
  moreover have "generateFolderPath ''The Grand Hotel'' ''Ceremony'' = ''the-grand-hotel/ceremony''"
    by code_simp
  ultimately show ?thesis
    by (simp add: generateFolderPath_def sanitizeCategory_def keepOnly_def spec_strip_def)
qed

text \<open>C6 at \<open>("Oakview Manor", "Re-ception 2")\<close>.\<close>

theorem generateFolderPath_contract_witness:
  "generateFolderPath ''Oakview Manor'' ''Re-ception 2'' = ''oakview-manor/reception2''"
proof -
  have "sanitizeVenueName ''Oakview Manor'' @ ''/'' @ spec_strip isAlnum (toLowerCase ''Re-ception 2'')
        = ''oakview-manor/reception2''"
    by code_simp
  with generateFolderPath_contract[of "''Oakview Manor''" "''Re-ception 2''"] show ?thesis
    by simp
qed

text \<open>
  C7. For every MIME type string, \<open>getFileCategory\<close> returns \<open>"image"\<close> exactly when
  the string starts with \<open>image/\<close>, \<open>"document"\<close> exactly when it does not and is
  \<open>application/pdf\<close> or contains \<open>document\<close> or \<open>word\<close>, and \<open>"other"\<close>
  otherwise; in particular \<open>image/png\<close> is an image, \<open>application/pdf\<close> a document
  and \<open>text/csv\<close> other.
\<close>

theorem getFileCategory_classes:
  "(getFileCategory m = ''image'' \<longleftrightarrow> prefix ''image/'' m) \<and>
   (getFileCategory m = ''document'' \<longleftrightarrow>
      \<not> prefix ''image/'' m \<and>
      (m = ''application/pdf'' \<or> sublist ''document'' m \<or> sublist ''word'' m)) \<and>
   (getFileCategory m = ''other'' \<longleftrightarrow>
      \<not> prefix ''image/'' m \<and>
      \<not> (m = ''application/pdf'' \<or> sublist ''document'' m \<or> sublist ''word'' m)) \<and>
   getFileCategory ''image/png'' = ''image'' \<and>
   getFileCategory ''application/pdf'' = ''document'' \<and>
   getFileCategory ''text/csv'' = ''other''"
proof -
  have "getFileCategory ''image/png'' = ''image''" by code_simp
  moreover have "getFileCategory ''application/pdf'' = ''document''" by code_simp
  moreover have "getFileCategory ''text/csv'' = ''other''" by code_simp
  ultimately show ?thesis
    by (simp add: getFileCategory_def startsWith_prefix includesStr_sublist)
qed

text \<open>C7 at \<open>application/msword\<close>.\<close>

theorem getFileCategory_classes_witness:
  "getFileCategory ''application/msword'' = ''document'' \<and>
   \<not> prefix ''image/'' ''application/msword''"
proof -
  have "getFileCategory ''application/msword'' = ''document''" by code_simp
  with getFileCategory_classes[of "''application/msword''"] show ?thesis
    by simp
qed

subsection \<open>Object names\<close>

lemma digit_in: "digit n \<in> set ''0123456789''"
  unfolding digit_def by (rule nth_mem) simp

lemma digit_props:
  "isDigit (digit n)" "digit n \<noteq> CHR '':''" "digit n \<noteq> CHR ''.''"
  using digit_in[of n] by (auto simp: isDigit_def)

lemma length_isoYear: "4 \<le> length (isoYear y)"
  by (simp add: isoYear_def pad4_def pad6_def)

lemma length_timestampOf: "length (timestampOf (toISOString now)) = 19"
  using length_isoYear[of "year now"]
  by (simp add: timestampOf_def toISOString_def pad2_def pad3_def)

lemma timestampOf_four_digit_year:
  assumes "0 \<le> year now" "year now \<le> 9999"
  shows "timestampOf (toISOString now) = spec_timestamp now"
  using assms
  by (simp add: timestampOf_def toISOString_def spec_timestamp_def isoYear_def
      pad2_def pad3_def pad4_def digit_props)

lemma spec_timestamp_props:
  "length (spec_timestamp now) = 19"
  "length (filter isDigit (spec_timestamp now)) = 14"
  "CHR '':'' \<notin> set (spec_timestamp now)"
  "CHR ''.'' \<notin> set (spec_timestamp now)"
proof -
  have nd: "\<not> isDigit CHR ''-''" "\<not> isDigit CHR ''T''"
    by (simp_all add: isDigit_def)
  show "length (spec_timestamp now) = 19"
    by (simp add: spec_timestamp_def pad2_def pad4_def)
  show "length (filter isDigit (spec_timestamp now)) = 14"
    by (simp add: spec_timestamp_def pad2_def pad4_def digit_props nd)
  show "CHR '':'' \<notin> set (spec_timestamp now)"
    using digit_props(2) by (simp add: spec_timestamp_def pad2_def pad4_def) metis
  show "CHR ''.'' \<notin> set (spec_timestamp now)"
    using digit_props(3) by (simp add: spec_timestamp_def pad2_def pad4_def) metis
qed

lemma generateFileName_parts:
  "\<exists>pre. \<forall>now uuid. generateFileName venueName originalName category now uuid =
     pre @ timestampOf (toISOString now) @ ''_'' @ take 8 uuid @ toLowerCase (extname originalName)"
proof (cases "category = []")
  case True
  then have "\<forall>now uuid. generateFileName venueName originalName category now uuid =
     (sanitizeVenueName venueName @ ''_'') @ timestampOf (toISOString now) @ ''_'' @ take 8 uuid @
     toLowerCase (extname originalName)"
    by (simp add: generateFileName_def Let_def)
  then show ?thesis by blast
next
  case False
  then have "\<forall>now uuid. generateFileName venueName originalName category now uuid =
     (sanitizeVenueName venueName @ ''_'' @ sanitizeCategory category @ ''_'') @
     timestampOf (toISOString now) @ ''_'' @ take 8 uuid @ toLowerCase (extname originalName)"
    by (simp add: generateFileName_def Let_def)
  then show ?thesis by blast
qed

lemma generateFileName_inj:
  assumes "generateFileName v orig c now1 uuid1 = generateFileName v orig c now2 uuid2"
  shows "timestampOf (toISOString now1) = timestampOf (toISOString now2) \<and> take 8 uuid1 = take 8 uuid2"
proof -
  obtain pre where pre: "\<And>now uuid. generateFileName v orig c now uuid =
     pre @ timestampOf (toISOString now) @ ''_'' @ take 8 uuid @ toLowerCase (extname orig)"
    using generateFileName_parts[of v orig c] by blast
  from assms have "timestampOf (toISOString now1) @ (''_'' @ take 8 uuid1 @ toLowerCase (extname orig))
      = timestampOf (toISOString now2) @ (''_'' @ take 8 uuid2 @ toLowerCase (extname orig))"
    by (simp add: pre)
  moreover have "length (timestampOf (toISOString now1)) = length (timestampOf (toISOString now2))"
    by (simp add: length_timestampOf)
  ultimately have "timestampOf (toISOString now1) = timestampOf (toISOString now2) \<and>
      ''_'' @ take 8 uuid1 @ toLowerCase (extname orig) = ''_'' @ take 8 uuid2 @ toLowerCase (extname orig)"
    by (metis append_eq_append_conv)
  then show ?thesis by simp
qed

text \<open>
  C1, as the claim states it, fails: the timestamp keeps the first 19 characters of the
  ISO string, which end with the seconds. Two instants in the same second that differ in
  their milliseconds give, with the same identifier, the same name.
\<close>

theorem generateFileName_same_second_counterexample:
  "\<lparr>year = 2026, month = 11, day = 2, hours = 19, minutes = 35, seconds = 7, millis = 0\<rparr>
     \<noteq> \<lparr>year = 2026, month = 11, day = 2, hours = 19, minutes = 35, seconds = 7, millis = 1\<rparr> \<and>
   generateFileName ''Oakview Manor'' ''menu.pdf'' ''''
     \<lparr>year = 2026, month = 11, day = 2, hours = 19, minutes = 35, seconds = 7, millis = 0\<rparr>
     ''123e4567-e89b-42d3-a456-426614174000''
   = generateFileName ''Oakview Manor'' ''menu.pdf'' ''''
     \<lparr>year = 2026, month = 11, day = 2, hours = 19, minutes = 35, seconds = 7, millis = 1\<rparr>
     ''123e4567-e89b-42d3-a456-426614174000''"
  by code_simp

text \<open>
  C1, amended. For every venue, category and original filename, any two calls of
  \<open>generateFileName\<close> whose timestamps (the current instant at second precision) differ
  or whose 8-character random suffixes differ produce different output strings; in
  particular, two invocations with the same venue, category and timestamp but distinct
  8-character random suffixes always yield distinct object names.
\<close>

theorem generateFileName_distinct:
  "(timestampOf (toISOString now1) \<noteq> timestampOf (toISOString now2) \<or> take 8 uuid1 \<noteq> take 8 uuid2
      \<longrightarrow> generateFileName venueName originalName category now1 uuid1
          \<noteq> generateFileName venueName originalName category now2 uuid2) \<and>
   (take 8 uuid1 \<noteq> take 8 uuid2
      \<longrightarrow> generateFileName venueName originalName category now uuid1
          \<noteq> generateFileName venueName originalName category now uuid2)"
  using generateFileName_inj by blast

text \<open>C1, amended, at two identifiers that differ in their first eight characters.\<close>

theorem generateFileName_distinct_witness:
  "take 8 ''123e4567-e89b-42d3-a456-426614174000'' \<noteq> take 8 ''9b2e4567-e89b-42d3-a456-426614174000'' \<and>
   generateFileName ''Oakview Manor'' ''menu.pdf'' ''''
     \<lparr>year = 2026, month = 11, day = 2, hours = 19, minutes = 35, seconds = 7, millis = 0\<rparr>
     ''123e4567-e89b-42d3-a456-426614174000''
   \<noteq> generateFileName ''Oakview Manor'' ''menu.pdf'' ''''
     \<lparr>year = 2026, month = 11, day = 2, hours = 19, minutes = 35, seconds = 7, millis = 0\<rparr>
     ''9b2e4567-e89b-42d3-a456-426614174000''"
proof -
  have h: "take 8 ''123e4567-e89b-42d3-a456-426614174000'' \<noteq> take 8 ''9b2e4567-e89b-42d3-a456-426614174000''"
    by simp
  with generateFileName_distinct[of _ _ "''123e4567-e89b-42d3-a456-426614174000''"
      "''9b2e4567-e89b-42d3-a456-426614174000''"]
  show ?thesis by blast
qed

lemma oakview_name:
  "generateFileName ''Oakview Manor'' ''menu.pdf'' [] now uuid =
     ''oakview-manor_'' @ timestampOf (toISOString now) @ ''_'' @ take 8 uuid @ ''.pdf''"
proof -
  have "sanitizeVenueName ''Oakview Manor'' = ''oakview-manor''" by code_simp
  moreover have "toLowerCase (extname ''menu.pdf'') = ''.pdf''" by code_simp
  ultimately show ?thesis by (simp add: generateFileName_def)
qed

lemma oakview_folder: "generateFolderPath ''Oakview Manor'' [] = ''oakview-manor''"
  by code_simp

lemma pdf_document: "getFileCategory ''application/pdf'' = ''document''"
  by code_simp

text \<open>
  C5. For an upload with venue name \<open>"Oakview Manor"\<close>, no category and one file
  \<open>menu.pdf\<close> (\<open>application/pdf\<close>, 2048 bytes) that the backend accepts, the folder
  is \<open>oakview-manor\<close> and the object name is \<open>oakview-manor_\<close>, the timestamp, \<open>_\<close>,
  an 8-character identifier and \<open>.pdf\<close>. The timestamp is the current instant at
  second precision, \<open>YYYY-MM-DDTHH-MM-SS\<close>: 19 characters, 14 of them digits, with
  no colon and no period. The instant is one that \<open>toISOString\<close> prints with a
  four-digit year, and the identifier is drawn from the 36 characters of a UUID.
\<close>

theorem oakview_upload:
  assumes "0 \<le> year (nowAt w t)" and "year (nowAt w t) \<le> 9999"
    and "length (uuidAt w (t + 1)) = 36"
    and "objectName = ''oakview-manor_'' @ spec_timestamp (nowAt w t) @ ''_'' @
           take 8 (uuidAt w (t + 1)) @ ''.pdf''"
    and "f = \<lparr>originalname = ''menu.pdf'', mimetype = ''application/pdf'', fsize = 2048,
              buffer = content\<rparr>"
    and "storageUpload w (t + 2) bucketName (''oakview-manor/'' @ objectName) f = Data ()"
  shows "generateFolderPath ''Oakview Manor'' [] = ''oakview-manor'' \<and>
    generateFileName ''Oakview Manor'' ''menu.pdf'' [] (nowAt w t) (uuidAt w (t + 1)) = objectName \<and>
    timestampOf (toISOString (nowAt w t)) = spec_timestamp (nowAt w t) \<and>
    length (spec_timestamp (nowAt w t)) = 19 \<and>
    length (filter isDigit (spec_timestamp (nowAt w t))) = 14 \<and>
    CHR '':'' \<notin> set (spec_timestamp (nowAt w t)) \<and>
    CHR ''.'' \<notin> set (spec_timestamp (nowAt w t)) \<and>
    length (take 8 (uuidAt w (t + 1))) = 8 \<and>
    fst (uploadFilesToBucket w [f] bucketName ''Oakview Manor'' None t) =
      [Uploaded ''menu.pdf'' objectName (''oakview-manor/'' @ objectName)
         (getPublicUrl w bucketName (''oakview-manor/'' @ objectName)) 2048
         (formatFileSize w 2048) ''application/pdf'' ''document''
         (toISOString (nowAt w (t + 3)))]"
proof -
  have ts: "timestampOf (toISOString (nowAt w t)) = spec_timestamp (nowAt w t)"
    using assms(1,2) by (rule timestampOf_four_digit_year)
  have nm: "generateFileName ''Oakview Manor'' ''menu.pdf'' [] (nowAt w t) (uuidAt w (t + 1)) = objectName"
    by (simp add: oakview_name ts assms(4))
  have one: "uploadOne w bucketName ''Oakview Manor'' [] f t =
      (Uploaded ''menu.pdf'' objectName (''oakview-manor/'' @ objectName)
         (getPublicUrl w bucketName (''oakview-manor/'' @ objectName)) 2048
         (formatFileSize w 2048) ''application/pdf'' ''document''
         (toISOString (nowAt w (t + 3))), t + 4)"
  proof -
    have o: "originalname f = ''menu.pdf''" "mimetype f = ''application/pdf''" "fsize f = 2048"
      by (simp_all add: assms(5))
    show ?thesis
      unfolding uploadOne_def Let_def o nm oakview_folder pdf_document
      using assms(6) by simp
  qed
  have up: "fst (uploadFilesToBucket w [f] bucketName ''Oakview Manor'' None t) =
      [Uploaded ''menu.pdf'' objectName (''oakview-manor/'' @ objectName)
         (getPublicUrl w bucketName (''oakview-manor/'' @ objectName)) 2048
         (formatFileSize w 2048) ''application/pdf'' ''document''
         (toISOString (nowAt w (t + 3)))]"
    by (simp add: uploadFilesToBucket_def one)
  have l8: "length (take 8 (uuidAt w (t + 1))) = 8"
    using assms(3) by simp
  show ?thesis
    using oakview_folder nm ts spec_timestamp_props[of "nowAt w t"] l8 up by blast
qed

text \<open>C5 in the example world, at tick 0.\<close>

theorem oakview_upload_witness:
  "fst (uploadFilesToBucket (exampleWorld (\<lambda>f. Data ()) (\<lambda>b. Data []) (Data ()))
      [\<lparr>originalname = ''menu.pdf'', mimetype = ''application/pdf'', fsize = 2048,
        buffer = ''%PDF''\<rparr>] ''menus'' ''Oakview Manor'' None 0) =
     [Uploaded ''menu.pdf'' ''oakview-manor_2026-11-02T19-35-07_123e4567.pdf''
        ''oakview-manor/oakview-manor_2026-11-02T19-35-07_123e4567.pdf''
        ''https://storage.example/menus/oakview-manor/oakview-manor_2026-11-02T19-35-07_123e4567.pdf''
        2048 ''2 KB'' ''application/pdf'' ''document'' ''2026-11-02T19:35:07.003Z'']"
proof -
  let ?w = "exampleWorld (\<lambda>f. Data ()) (\<lambda>b. Data []) (Data ())"
  let ?f = "\<lparr>originalname = ''menu.pdf'', mimetype = ''application/pdf'', fsize = 2048,
        buffer = ''%PDF''\<rparr>"
  let ?n = "''oakview-manor_2026-11-02T19-35-07_123e4567.pdf''"
  have now: "nowAt ?w 0 = \<lparr>year = 2026, month = 11, day = 2, hours = 19, minutes = 35,
                       seconds = 7, millis = 0\<rparr>"
    by (simp add: exampleWorld_def)
  have uu: "uuidAt ?w (0 + 1) = ''123e4567-e89b-42d3-a456-426614174000''"
    by (simp add: exampleWorld_def)
  have 1: "0 \<le> year (nowAt ?w 0)" and 2: "year (nowAt ?w 0) \<le> 9999"
    by (simp_all add: now)
  have 3: "length (uuidAt ?w (0 + 1)) = 36"
    by (simp add: exampleWorld_def)
  have st: "spec_timestamp \<lparr>year = 2026, month = 11, day = 2, hours = 19, minutes = 35,
                       seconds = 7, millis = 0\<rparr> = ''2026-11-02T19-35-07''"
    by code_simp
  have 4: "?n = ''oakview-manor_'' @ spec_timestamp (nowAt ?w 0) @ ''_'' @
           take 8 (uuidAt ?w (0 + 1)) @ ''.pdf''"
    by (simp add: exampleWorld_def st)
  have 6: "storageUpload ?w (0 + 2) ''menus'' (''oakview-manor/'' @ ?n) ?f = Data ()"
    by (simp add: exampleWorld_def)
  have fs: "formatFileSize ?w 2048 = ''2 KB''"
    unfolding exampleWorld_def by code_simp
  have url: "getPublicUrl ?w ''menus'' ''oakview-manor/oakview-manor_2026-11-02T19-35-07_123e4567.pdf'' =
      ''https://storage.example/menus/oakview-manor/oakview-manor_2026-11-02T19-35-07_123e4567.pdf''"
    by (simp add: exampleWorld_def)
  have at: "toISOString (nowAt ?w 3) = ''2026-11-02T19:35:07.003Z''"
    unfolding exampleWorld_def by code_simp
  from oakview_upload[OF 1 2 3 4 refl 6]
  have "fst (uploadFilesToBucket ?w [?f] ''menus'' ''Oakview Manor'' None 0) =
      [Uploaded ''menu.pdf'' ?n (''oakview-manor/'' @ ?n)
         (getPublicUrl ?w ''menus'' (''oakview-manor/'' @ ?n)) 2048
         (formatFileSize ?w 2048) ''application/pdf'' ''document''
         (toISOString (nowAt ?w (0 + 3)))]"
    by blast
  then show ?thesis
    by (simp add: fs url at)
qed

subsection \<open>Authentication\<close>







subsection \<open>Failures of the storage backend\<close>

lemma uploadOne_fileResult:
  "fileResult w bucketName f (fst (uploadOne w bucketName venueName category f t))"
proof -
  let ?p = "generateFolderPath venueName category @ ''/'' @
            generateFileName venueName (originalname f) category (nowAt w t) (uuidAt w (t + 1))"
  show ?thesis
  proof (cases "storageUpload w (t + 2) bucketName ?p f")
    case (Data u)
    then have "storageUpload w (t + 2) bucketName ?p f = Data ()" by simp
    then have "\<not> (\<forall>n p. storageUpload w n bucketName p f \<noteq> Data ())" by blast
    then show ?thesis using Data by (simp add: fileResult_def uploadOne_def Let_def)
  next
    case (Error msg)
    then have "\<not> (\<forall>n p. storageUpload w n bucketName p f = Data ())"
      by (metis storage_reply.distinct(1))
    then show ?thesis using Error by (simp add: fileResult_def uploadOne_def Let_def)
  next
    case Throws
    then have "\<not> (\<forall>n p. storageUpload w n bucketName p f = Data ())"
      by (metis storage_reply.distinct(3))
    then show ?thesis using Throws by (simp add: fileResult_def uploadOne_def Let_def)
  qed
qed


lemma uploadLoop_fileResult:
  "list_all2 (fileResult w bucketName) files
     (fst (uploadLoop w bucketName venueName category files t))"
proof (induction files arbitrary: t)
  case Nil
  show ?case by simp
next
  case (Cons f fs)
  obtain r t1 where one: "uploadOne w bucketName venueName category f t = (r, t1)"
    by (cases "uploadOne w bucketName venueName category f t")
  obtain rs t2 where rest: "uploadLoop w bucketName venueName category fs t1 = (rs, t2)"
    by (cases "uploadLoop w bucketName venueName category fs t1")
  have "fileResult w bucketName f r"
    using uploadOne_fileResult[of w bucketName f venueName category t] one by simp
  moreover have "list_all2 (fileResult w bucketName) fs rs"
    using Cons.IH[of t1] rest by simp
  ultimately show ?case by (simp add: one rest)
qed

lemma uploadFilesToBucket_fileResult:
  "list_all2 (fileResult w bucketName) files
     (fst (uploadFilesToBucket w files bucketName venueName category t))"
  by (simp add: uploadFilesToBucket_def uploadLoop_fileResult)

lemma uploadFilesToBucket_each:
  assumes "results = fst (uploadFilesToBucket w files bucketName venueName category t)"
  shows "length results = length files"
    and "\<forall>i<length files. fileResult w bucketName (files ! i) (results ! i)"
  using uploadFilesToBucket_fileResult[of w bucketName files venueName category t] assms
  by (simp_all add: list_all2_conv_all_nth)


lemma listVenuesLoop_no_throw:
  assumes "\<forall>i<length bs. storageList w (t + i) (bs ! i) [] \<noteq> Throws"
  shows "\<exists>vs. listVenuesLoop w bs t venues = Some vs"
  using assms
proof (induction bs arbitrary: t venues)
  case Nil
  then show ?case by simp
next
  case (Cons b bs)
  from Cons.prems have h: "storageList w t b [] \<noteq> Throws" by fastforce
  have "\<forall>i<length bs. storageList w (t + 1 + i) (bs ! i) [] \<noteq> Throws"
  proof (intro allI impI)
    fix i assume "i < length bs"
    then have "Suc i < length (b # bs)" by simp
    with Cons.prems have "storageList w (t + Suc i) ((b # bs) ! Suc i) [] \<noteq> Throws" by blast
    then show "storageList w (t + 1 + i) (bs ! i) [] \<noteq> Throws" by simp
  qed
  then have "\<exists>vs. listVenuesLoop w bs (t + 1) v = Some vs" for v
    using Cons.IH by blast
  with h show ?case by (cases "storageList w t b []") simp_all
qed



















subsection \<open>The photos response\<close>

text \<open>
  C10. In the photos upload response the request-level \<open>category\<close> field is the supplied
  category when it is not empty and \<open>"general"\<close> otherwise, while the \<open>category\<close> field
  of each successful per-file result is the classification of the file's MIME type
  (\<open>"image"\<close>, \<open>"document"\<close> or \<open>"other"\<close>). There is one result per file.
\<close>

theorem photos_response_category:
  assumes "body_venueName body = Some venueName" and "venueName \<noteq> []"
  shows "\<exists>msg results t'.
     photosHandler w b body files t =
       (UploadDone msg results (PHOTOS b) venueName
          (Some (case body_category body of
                   None \<Rightarrow> ''general''
                 | Some c \<Rightarrow> if c = [] then ''general'' else c)), t') \<and>
     length results = length files \<and>
     (\<forall>i<length files. res_success (results ! i) \<longrightarrow>
        res_category (results ! i) = getFileCategory (mimetype (files ! i)) \<and>
        res_category (results ! i) \<in> {''image'', ''document'', ''other''})"
proof -
  let ?up = "uploadFilesToBucket w files (PHOTOS b) venueName (body_category body) t"
  obtain results t' where up: "?up = (results, t')"
    by (cases ?up)
  have v: "orDefault (body_venueName body) [] = venueName"
    using assms by (simp add: orDefault_def)
  have h: "photosHandler w b body files t =
      (UploadDone (''Successfully uploaded '' @ showNat (length results) @
                   '' file(s) to photos bucket'')
         results (PHOTOS b) venueName (Some (orDefault (body_category body) ''general'')), t')"
    using assms(2) by (simp add: photosHandler_def Let_def v up)
  have r: "results = fst ?up"
    by (simp add: up)
  have len: "length results = length files"
    using r by (rule uploadFilesToBucket_each(1))
  have each: "\<forall>i<length files. fileResult w (PHOTOS b) (files ! i) (results ! i)"
    using r by (rule uploadFilesToBucket_each(2))
  have cls: "getFileCategory m \<in> {''image'', ''document'', ''other''}" for m
    by (simp add: getFileCategory_def)
  have "\<forall>i<length files. res_success (results ! i) \<longrightarrow>
        res_category (results ! i) = getFileCategory (mimetype (files ! i)) \<and>
        res_category (results ! i) \<in> {''image'', ''document'', ''other''}"
    using each cls unfolding fileResult_def by metis
  with h len show ?thesis
    unfolding orDefault_def by blast
qed

text \<open>C10 for one PNG file, with the category \<open>Ceremony\<close> and with no category.\<close>

theorem photos_response_category_witness:
  "resp_category (fst (photosHandler (exampleWorld (\<lambda>f. Data ()) (\<lambda>b. Data []) (Data ()))
      (BUCKETS None None None)
      \<lparr>body_venueName = Some ''Oakview Manor'', body_category = Some ''Ceremony''\<rparr>
      [\<lparr>originalname = ''hall.png'', mimetype = ''image/png'', fsize = 10, buffer = ''x''\<rparr>] 0))
     = Some ''Ceremony'' \<and>
   map res_category (resp_uploads (fst (photosHandler
      (exampleWorld (\<lambda>f. Data ()) (\<lambda>b. Data []) (Data ()))
      (BUCKETS None None None)
      \<lparr>body_venueName = Some ''Oakview Manor'', body_category = Some ''Ceremony''\<rparr>
      [\<lparr>originalname = ''hall.png'', mimetype = ''image/png'', fsize = 10, buffer = ''x''\<rparr>] 0)))
     = [''image''] \<and>
   resp_category (fst (photosHandler (exampleWorld (\<lambda>f. Data ()) (\<lambda>b. Data []) (Data ()))
      (BUCKETS None None None)
      \<lparr>body_venueName = Some ''Oakview Manor'', body_category = None\<rparr>
      [\<lparr>originalname = ''hall.png'', mimetype = ''image/png'', fsize = 10, buffer = ''x''\<rparr>] 0))
     = Some ''general''"
proof -
  let ?W = "exampleWorld (\<lambda>f. Data ()) (\<lambda>b. Data []) (Data ())"
  let ?B = "BUCKETS None None None"
  let ?f = "\<lparr>originalname = ''hall.png'', mimetype = ''image/png'', fsize = 10, buffer = ''x''\<rparr>"
  let ?body1 = "\<lparr>body_venueName = Some ''Oakview Manor'', body_category = Some ''Ceremony''\<rparr>"
  let ?body2 = "\<lparr>body_venueName = Some ''Oakview Manor'', body_category = None\<rparr>"
  have ok: "\<forall>n p. storageUpload ?W n (PHOTOS ?B) p ([?f] ! 0) = Data ()"
    by (simp add: exampleWorld_def)
  obtain msg results t' where
    h: "photosHandler ?W ?B ?body1 [?f] 0 =
          (UploadDone msg results (PHOTOS ?B) ''Oakview Manor''
             (Some (case body_category ?body1 of
                      None \<Rightarrow> ''general''
                    | Some c \<Rightarrow> if c = [] then ''general'' else c)), t')"
    and len: "length results = length [?f]"
    and each: "\<forall>i<length [?f]. res_success (results ! i) \<longrightarrow>
        res_category (results ! i) = getFileCategory (mimetype ([?f] ! i)) \<and>
        res_category (results ! i) \<in> {''image'', ''document'', ''other''}"
    using photos_response_category[of ?body1 "''Oakview Manor''" ?W ?B "[?f]" 0] by auto
  have up: "results = fst (uploadFilesToBucket ?W [?f] (PHOTOS ?B) ''Oakview Manor'' (Some ''Ceremony'') 0)"
    using h by (simp add: photosHandler_def orDefault_def Let_def split: prod.splits)
  have "fileResult ?W (PHOTOS ?B) ([?f] ! 0) (results ! 0)"
    using uploadFilesToBucket_each(2)[OF up] by simp
  with ok have "res_success (results ! 0)"
    unfolding fileResult_def by blast
  with each have "res_category (results ! 0) = getFileCategory (mimetype ([?f] ! 0))"
    by simp
  moreover have "getFileCategory ''image/png'' = ''image''"
    by code_simp
  ultimately have c0: "res_category (results ! 0) = ''image''"
    by simp
  from len obtain r where rs: "results = [r]"
    by (cases results) auto
  with c0 have 2: "map res_category results = [''image'']"
    by simp
  obtain msg2 results2 t2 where
    h2: "photosHandler ?W ?B ?body2 [?f] 0 =
          (UploadDone msg2 results2 (PHOTOS ?B) ''Oakview Manor''
             (Some (case body_category ?body2 of
                      None \<Rightarrow> ''general''
                    | Some c \<Rightarrow> if c = [] then ''general'' else c)), t2)"
    using photos_response_category[of ?body2 "''Oakview Manor''" ?W ?B "[?f]" 0] by auto
  show ?thesis
    using h 2 h2 by simp
qed

end
